theory Spec2Isabelle
  imports Main
begin

section \<open>Data model of my_shell.c\<close>

text \<open>
  A token is a C string (the bytes before its terminating NUL). An entry of a
  \<^verbatim>\<open>char *[]\<close> array is either never written (its value is indeterminate), the
  NULL pointer, or a pointer to a token.
\<close>

type_synonym token = string

datatype cell = Uninit | Null | Tok token

definition MAX_CMD_LENGTH :: nat where
  "MAX_CMD_LENGTH = 512"

definition MAX_NUM_CMDS :: nat where
  "MAX_NUM_CMDS = 20"

text \<open>
  C gives no meaning to a store past the end of an array, and a vector that is read
  as NULL-terminated has to meet its NULL inside the array. Both are results of the
  model, not values HOL picks silently.
\<close>

datatype error = OutOfBounds | Unterminated

text \<open>
  A freshly declared local array \<^verbatim>\<open>char *a[MAX_NUM_CMDS]\<close>: twenty entries, none
  of them written.
\<close>

definition fresh_array :: "cell list" where
  "fresh_array = replicate MAX_NUM_CMDS Uninit"

text \<open>
  What a reader of a NULL-terminated vector (\<^verbatim>\<open>execvp\<close>, or the loops over
  \<^verbatim>\<open>args\<close>) finds in an array: the tokens before the first NULL. There is no
  answer when an indeterminate entry or the end of the array comes first.
\<close>

fun vector :: "cell list \<Rightarrow> token list option" where
  "vector [] = None"
| "vector (Uninit # cs) = None"
| "vector (Null # cs) = Some []"
| "vector (Tok t # cs) = (case vector cs of None \<Rightarrow> None | Some ts \<Rightarrow> Some (t # ts))"

subsection \<open>The platform and the observable behaviour\<close>

text \<open>
  What the operating system does at one \<^verbatim>\<open>fork\<close>/\<^verbatim>\<open>execvp\<close>: process creation
  fails (\<^verbatim>\<open>fork\<close> returns a negative value), or a child is created and \<^verbatim>\<open>execvp\<close>
  returns -1 in it, or the child's image is replaced and the program later ends with
  some exit status (a program that never ends keeps the shell in \<^verbatim>\<open>wait\<close> for
  ever and is not part of the model). The platform is a parameter of the model:
  \<open>plat n\<close> is what happens at the \<open>n\<close>-th call of \<^verbatim>\<open>fork\<close> of the shell
  process.

  A child is a copy of the shell and so has a copy of the buffers of the shell's
  stdio streams, while the files behind the streams are shared with the shell. What
  the buffer of \<^verbatim>\<open>stdout\<close> holds at a \<^verbatim>\<open>fork\<close> depends on how the platform
  buffers that stream, so it comes with the platform's answer: \<open>Exec_fails k\<close> says
  that the last \<open>k\<close> characters the shell has printed were still in the buffer, not
  yet written, when the child was created (none where the stream has just been
  flushed, as glibc does on a terminal before it reads \<^verbatim>\<open>stdin\<close>; everything
  printed so far where standard output is a pipe or a file and the buffer has not
  filled up).
\<close>

datatype launch = Fork_fails | Exec_fails nat | Exec_ok int

text \<open>
  The events of a session, in order. \<open>Call\<close> records that \<^verbatim>\<open>executeCommand\<close> was
  entered and what its argument holds as a NULL-terminated vector at that moment,
  and \<open>Lookup\<close> that the table of built-in commands was searched for a name (by
  \<^verbatim>\<open>isBuiltin\<close> or by \<^verbatim>\<open>executeBuiltinCommand\<close>); neither is output of the
  program. The \<open>Child_\<close> events happen in the child process, the others in the
  shell.
  A message of \<^verbatim>\<open>perror\<close> is recorded by the text the program passes to it.
  \<open>Stdout\<close> is text that the shell hands to \<^verbatim>\<open>printf\<close>, and \<open>Child_stdout\<close> is
  text that a child writes to the file behind the shell's standard output.
  \<open>Child_sync\<close> is a child synchronising its copies of the shell's input streams
  with their files: where a stream has read ahead in a file that can seek, the child
  sets the offset of the file, which it shares with the shell, back by the number of
  characters not yet consumed.
  \<open>Exited\<close> is the state of the shell after \<^verbatim>\<open>exit\<close>.
\<close>

datatype event =
    Stdout string
  | Stderr string
  | Lookup token
  | Call "token list option"
  | Child_stderr string
  | Child_stdout string
  | Child_sync
  | Child_image
  | Child_exit int
  | Wait

datatype status = Running | Exited int

record shell =
  events :: "event list"
  forks :: nat
  status :: status

definition shell0 :: shell where
  "shell0 = \<lparr>events = [], forks = 0, status = Running\<rparr>"

definition emit :: "event list \<Rightarrow> shell \<Rightarrow> shell" where
  "emit es s = s\<lparr>events := events s @ es\<rparr>"

text \<open>\<^verbatim>\<open>EXIT_FAILURE\<close> comes from \<^verbatim>\<open>stdlib.h\<close>; its value on POSIX systems is 1.\<close>

definition EXIT_FAILURE :: int where
  "EXIT_FAILURE = 1"

section \<open>Built-in commands\<close>

text \<open>
  The two built-in functions and the table \<^verbatim>\<open>builtinCommands\<close> of names and
  function pointers, a pointer being the function it points to. \<^verbatim>\<open>exit(0)\<close> leaves
  the shell exited with status 0, and text written with \<^verbatim>\<open>printf\<close> is an event
  of standard output.
\<close>

definition quitShell :: "shell \<Rightarrow> shell" where
  "quitShell s = s\<lparr>status := Exited 0\<rparr>"

definition displayAuthor :: "shell \<Rightarrow> shell" where
  "displayAuthor s =
     emit [Stdout ([CHR 0x0A] @ ''giannis-mel'' @ [CHR 0x0A] @
                   ''meleziadisgiannis@gmail.com'' @ [CHR 0x0A, CHR 0x0A])] s"

record BuiltinCmd =
  name :: string
  func :: "shell \<Rightarrow> shell"

definition builtinCommands :: "BuiltinCmd list" where
  "builtinCommands =
     [\<lparr>name = ''quit'', func = quitShell\<rparr>, \<lparr>name = ''author'', func = displayAuthor\<rparr>]"

definition numOfBuiltinCommands :: nat where
  "numOfBuiltinCommands = length builtinCommands"

function isBuiltin_loop :: "nat \<Rightarrow> token \<Rightarrow> int" where
  "isBuiltin_loop i arg =
     (if i < numOfBuiltinCommands then
        if arg = name (builtinCommands ! i) then 1 else isBuiltin_loop (i + 1) arg
      else 0)"
  by pat_completeness auto
termination
  by (relation "measure (\<lambda>(i, arg). numOfBuiltinCommands - i)") auto

definition isBuiltin :: "token \<Rightarrow> shell \<Rightarrow> int \<times> shell" where
  "isBuiltin arg s = (isBuiltin_loop 0 arg, emit [Lookup arg] s)"

function executeBuiltinCommand_loop :: "nat \<Rightarrow> token \<Rightarrow> shell \<Rightarrow> shell" where
  "executeBuiltinCommand_loop i arg s =
     (if i < numOfBuiltinCommands then
        if arg = name (builtinCommands ! i) then func (builtinCommands ! i) s
        else executeBuiltinCommand_loop (i + 1) arg s
      else emit [Stderr (''Error: Something is terribly wrong in my code.'' @ [CHR 0x0A])] s)"
  by pat_completeness auto
termination
  by (relation "measure (\<lambda>(i, arg, s). numOfBuiltinCommands - i)") auto

definition executeBuiltinCommand :: "token \<Rightarrow> shell \<Rightarrow> shell" where
  "executeBuiltinCommand arg s = executeBuiltinCommand_loop 0 arg (emit [Lookup arg] s)"

section \<open>The process executor\<close>

text \<open>
  \<^verbatim>\<open>executeCommand(args)\<close>, seen from the shell process. Its parameter is the vector
  that the \<^verbatim>\<open>char **\<close> argument denotes. \<^verbatim>\<open>fork\<close> is called first. Where it fails
  (\<^verbatim>\<open>pid < 0\<close>) the shell reports it with \<^verbatim>\<open>perror\<close>. Otherwise the child
  (\<^verbatim>\<open>pid == 0\<close>) calls \<^verbatim>\<open>execvp\<close>, and when that returns -1 it reports with
  \<^verbatim>\<open>perror\<close> and calls \<^verbatim>\<open>exit(EXIT_FAILURE)\<close>, while the shell (\<^verbatim>\<open>pid > 0\<close>) is in
  \<^verbatim>\<open>wait(NULL)\<close> until the child has ended; the status goes nowhere.

  \<^verbatim>\<open>exit\<close>, unlike \<^verbatim>\<open>_exit\<close>, ends a process through the cleanup of stdio. In the
  child that cleanup works on the copies of the shell's streams: it writes what the
  buffer of \<^verbatim>\<open>stdout\<close> holds, which is the output that the shell has printed and not
  yet written, and it synchronises the input streams with their files. \<open>printed\<close>
  is all the text the shell has handed to \<^verbatim>\<open>printf\<close>, and \<open>unwritten k\<close> its last
  \<open>k\<close> characters.
\<close>

definition printed :: "event list \<Rightarrow> string" where
  "printed es = concat (map (\<lambda>e. case e of Stdout t \<Rightarrow> t | _ \<Rightarrow> []) es)"

definition unwritten :: "nat \<Rightarrow> shell \<Rightarrow> string" where
  "unwritten k s = drop (length (printed (events s)) - k) (printed (events s))"

definition child_exit :: "nat \<Rightarrow> shell \<Rightarrow> int \<Rightarrow> event list" where
  "child_exit k s st =
     (if unwritten k s = [] then [] else [Child_stdout (unwritten k s)])
     @ [Child_sync, Child_exit st]"

definition executeCommand :: "(nat \<Rightarrow> launch) \<Rightarrow> token list option \<Rightarrow> shell \<Rightarrow> shell" where
  "executeCommand plat args s =
     (case plat (forks s) of
        Exec_fails k \<Rightarrow>
          (emit ([Call args, Child_stderr ''Error executing command'']
                 @ child_exit k s EXIT_FAILURE @ [Wait]) s)\<lparr>forks := forks s + 1\<rparr>
      | Exec_ok st \<Rightarrow>
          (emit [Call args, Child_image, Child_exit st, Wait] s)\<lparr>forks := forks s + 1\<rparr>
      | Fork_fails \<Rightarrow>
          (emit [Call args, Stderr ''Fork failed''] s)\<lparr>forks := forks s + 1\<rparr>)"

section \<open>The multi-command splitter\<close>

text \<open>
  From here on \<^verbatim>\<open>args\<close> is the list of the tokens before the terminating NULL of
  the vector, so \<^verbatim>\<open>args[i] != NULL\<close> is \<open>i < length args\<close> and
  \<^verbatim>\<open>args[i+1] == NULL\<close> is \<open>i + 1 = length args\<close>. The local array
  \<^verbatim>\<open>commands\<close> is kept as an array: it is never cleared, and \<^verbatim>\<open>executeCommand\<close>
  reads it up to the first NULL it holds.
\<close>

function handleMultipleCommands_loop ::
  "(nat \<Rightarrow> launch) \<Rightarrow> token list \<Rightarrow> token \<Rightarrow> nat \<Rightarrow> nat \<Rightarrow> cell list \<Rightarrow> shell \<Rightarrow> error + shell"
where
  "handleMultipleCommands_loop plat args delimiter i j commands s =
     (if i < length args then
        if args ! i = delimiter \<or> i + 1 = length args then
          if j < length commands then
            handleMultipleCommands_loop plat args delimiter (i + 1) 0
              (commands[j := (if i + 1 = length args then Tok (args ! i) else Null)])
              (executeCommand plat
                 (vector (commands[j := (if i + 1 = length args then Tok (args ! i) else Null)])) s)
          else Inl OutOfBounds
        else
          if j < length commands then
            handleMultipleCommands_loop plat args delimiter (i + 1) (j + 1)
              (commands[j := Tok (args ! i)]) s
          else Inl OutOfBounds
      else Inr s)"
  by pat_completeness auto
termination
  by (relation "measure (\<lambda>(plat, args, delimiter, i, j, commands, s). length args - i)") auto

definition handleMultipleCommands ::
  "(nat \<Rightarrow> launch) \<Rightarrow> token list \<Rightarrow> token \<Rightarrow> shell \<Rightarrow> error + shell" where
  "handleMultipleCommands plat args delimiter s =
     handleMultipleCommands_loop plat args delimiter 0 0 fresh_array s"

section \<open>The classifier and the dispatcher\<close>

function getCommandType_loop :: "token list \<Rightarrow> nat \<Rightarrow> int" where
  "getCommandType_loop args i =
     (if i < length args then
        if args ! i = ''&&'' then 3
        else if args ! i = '';'' then 2
        else getCommandType_loop args (i + 1)
      else 1)"
  by pat_completeness auto
termination
  by (relation "measure (\<lambda>(args, i). length args - i)") auto

text \<open>
  \<^verbatim>\<open>getCommandType\<close> returns its number together with the shell, which has one more
  event when \<^verbatim>\<open>isBuiltin\<close> was called. In \<^verbatim>\<open>args[1] == NULL && isBuiltin(args[0])\<close>
  the call is made only when the first operand holds, that is for a line of one
  token.
\<close>

definition getCommandType :: "token list \<Rightarrow> shell \<Rightarrow> int \<times> shell" where
  "getCommandType args s =
     (if args = [] then (0, s)
      else if length args = 1 then
        (case isBuiltin (args ! 0) s of
           (found, s') \<Rightarrow> if found \<noteq> 0 then (4, s') else (getCommandType_loop args 0, s'))
      else (getCommandType_loop args 0, s))"

definition processCommand :: "(nat \<Rightarrow> launch) \<Rightarrow> token list \<Rightarrow> shell \<Rightarrow> error + shell" where
  "processCommand plat args s =
     (case getCommandType args s of
        (commandType, s') \<Rightarrow>
          if commandType = 0 then Inr s'
          else if commandType = 1 then Inr (executeCommand plat (Some args) s')
          else if commandType = 2 then handleMultipleCommands plat args '';'' s'
          else if commandType = 3 then handleMultipleCommands plat args ''&&'' s'
          else if commandType = 4 then Inr (executeBuiltinCommand (args ! 0) s')
          else Inr (emit [Stderr (''Error: Unrecognized command type.'' @ [CHR 0x0A])] s'))"

section \<open>The tokenizer\<close>

text \<open>
  \<^verbatim>\<open>strtok\<close> with the delimiters of the source, space, newline and tab. Its hidden
  position is explicit here: a call takes the text that is left, skips delimiters,
  and returns the token it finds and the text after the delimiter that ends it, or
  nothing at the end of the text.
\<close>

definition is_delim :: "char \<Rightarrow> bool" where
  "is_delim c = (c = CHR '' '' \<or> c = CHR 0x0A \<or> c = CHR 0x09)"

definition strtok :: "string \<Rightarrow> (token \<times> string) option" where
  "strtok text =
     (if dropWhile is_delim text = [] then None
      else Some (takeWhile (\<lambda>c. \<not> is_delim c) (dropWhile is_delim text),
                 drop 1 (dropWhile (\<lambda>c. \<not> is_delim c) (dropWhile is_delim text))))"

lemma strtok_shorter:
  assumes "strtok text = Some (t, rest)"
  shows "length rest < length text"
proof -
  let ?u = "dropWhile is_delim text"
  from assms have ne: "?u \<noteq> []" and rest: "rest = drop 1 (dropWhile (\<lambda>c. \<not> is_delim c) ?u)"
    by (auto simp: strtok_def split: if_splits)
  have "length rest \<le> length (dropWhile (\<lambda>c. \<not> is_delim c) ?u)"
    by (simp add: rest)
  moreover have "length (dropWhile (\<lambda>c. \<not> is_delim c) ?u) < length ?u"
  proof -
    from ne obtain c cs where u: "?u = c # cs" by (cases ?u) auto
    have "\<not> is_delim c" using hd_dropWhile [OF ne] by (simp add: u)
    then have "dropWhile (\<lambda>c. \<not> is_delim c) ?u = dropWhile (\<lambda>c. \<not> is_delim c) cs"
      by (simp add: u)
    moreover have "length (dropWhile (\<lambda>c. \<not> is_delim c) cs) \<le> length cs"
      by (rule length_dropWhile_le)
    ultimately show ?thesis by (simp add: u)
  qed
  moreover have "length ?u \<le> length text"
    by (rule length_dropWhile_le)
  ultimately show ?thesis by linarith
qed

text \<open>
  \<^verbatim>\<open>processInput(line, args)\<close>: the loop stores each token at \<^verbatim>\<open>args[j++]\<close> and the
  final statement stores NULL at \<^verbatim>\<open>args[j]\<close>. No store is guarded by the size of
  the array, so the model says where a store lands outside of it.
\<close>

function processInput_loop :: "(token \<times> string) option \<Rightarrow> nat \<Rightarrow> cell list \<Rightarrow> error + cell list" where
  "processInput_loop None j args =
     (if j < length args then Inr (args[j := Null]) else Inl OutOfBounds)"
| "processInput_loop (Some (tk, rest)) j args =
     (if j < length args then processInput_loop (strtok rest) (j + 1) (args[j := Tok tk])
      else Inl OutOfBounds)"
  by pat_completeness auto
termination
proof (relation "measure (\<lambda>(tk, j, args). case tk of None \<Rightarrow> 0 | Some (t, rest) \<Rightarrow> Suc (length rest))")
  show "wf (measure (\<lambda>(tk, j, args). case tk of None \<Rightarrow> 0 | Some (t, rest) \<Rightarrow> Suc (length rest)))"
    by simp
next
  fix tk rest j and args :: "cell list"
  assume "j < length args"
  show "((strtok rest, j + 1, args[j := Tok tk]), (Some (tk, rest), j, args))
        \<in> measure (\<lambda>(tk, j, args). case tk of None \<Rightarrow> 0 | Some (t, rest) \<Rightarrow> Suc (length rest))"
    by (cases "strtok rest") (auto dest: strtok_shorter)
qed

definition processInput :: "string \<Rightarrow> cell list \<Rightarrow> error + cell list" where
  "processInput line args = processInput_loop (strtok line) 0 args"

section \<open>The interactive loop\<close>

text \<open>
  The \<^verbatim>\<open>while (1)\<close> loop of \<^verbatim>\<open>main\<close> for \<^verbatim>\<open>argc == 1\<close>. It has no exit of its
  own, so the model runs it against the results of the first calls of \<^verbatim>\<open>fgets\<close>
  (\<open>None\<close> where \<^verbatim>\<open>fgets\<close> returns NULL, at a read error or at end of input;
  otherwise a line, which \<^verbatim>\<open>fgets\<close> keeps below \<open>MAX_CMD_LENGTH\<close> characters) and
  gives the shell after them; the loop goes on for as long as there are results and
  the process has not exited. \<^verbatim>\<open>args\<close> is the array of \<^verbatim>\<open>main\<close>, written by
  \<^verbatim>\<open>processInput\<close> and read by \<^verbatim>\<open>processCommand\<close> as a NULL-terminated vector.
\<close>

fun interactive ::
  "(nat \<Rightarrow> launch) \<Rightarrow> string option list \<Rightarrow> cell list \<Rightarrow> shell \<Rightarrow> error + shell" where
  "interactive plat [] args s = Inr s"
| "interactive plat (None # reads) args s =
     interactive plat reads args (emit [Stdout ''myshell> ''] s)"
| "interactive plat (Some line # reads) args s =
     (case processInput line args of
        Inl e \<Rightarrow> Inl e
      | Inr args' \<Rightarrow>
          (case vector args' of
             None \<Rightarrow> Inl Unterminated
           | Some toks \<Rightarrow>
               (case processCommand plat toks (emit [Stdout ''myshell> ''] s) of
                  Inl e \<Rightarrow> Inl e
                | Inr s' \<Rightarrow>
                    if status s' = Running then interactive plat reads args' s' else Inr s')))"

section \<open>The batch loop\<close>

text \<open>
  The batch file as the stream that \<^verbatim>\<open>fopen\<close> returns: the bytes of the file, the
  offset of the open file description (the kernel keeps it, and a child shares it
  with the shell), and the characters that stdio has read from the file into the
  buffer of the stream and that \<^verbatim>\<open>fgets\<close> has not yet returned. When the buffer is
  empty a read fills it with at most \<open>bufsize\<close> bytes of the file from the offset
  on, and moves the offset past them.
\<close>

record stream =
  content :: string
  bufsize :: nat
  offset :: nat
  unread :: string

definition fopen :: "string \<Rightarrow> nat \<Rightarrow> stream" where
  "fopen bytes n = \<lparr>content = bytes, bufsize = n, offset = 0, unread = []\<rparr>"

definition underflow :: "stream \<Rightarrow> stream" where
  "underflow f =
     f\<lparr>offset := offset f + length (take (bufsize f) (drop (offset f) (content f))),
       unread := take (bufsize f) (drop (offset f) (content f))\<rparr>"

text \<open>
  \<^verbatim>\<open>fgets(line, n, file)\<close>: characters go from the buffer to the line, the buffer
  being filled again whenever it is empty, until \<open>n - 1\<close> of them are stored, or a
  newline is stored, or the file ends; the result is NULL when the file ends before
  any character is stored.
\<close>

function fgets_loop :: "nat \<Rightarrow> string \<Rightarrow> stream \<Rightarrow> string option \<times> stream" where
  "fgets_loop n line f =
     (if length line + 1 < n then
        (let g = (if unread f = [] then underflow f else f) in
           case unread g of
             [] \<Rightarrow> (if line = [] then None else Some line, g)
           | c # cs \<Rightarrow>
               if c = CHR 0x0A then (Some (line @ [c]), g\<lparr>unread := cs\<rparr>)
               else fgets_loop n (line @ [c]) (g\<lparr>unread := cs\<rparr>))
      else (Some line, f))"
  by pat_completeness auto
termination
  by (relation "measure (\<lambda>(n, line, f). n - length line)") auto

definition fgets :: "nat \<Rightarrow> stream \<Rightarrow> string option \<times> stream" where
  "fgets n f = fgets_loop n [] f"

text \<open>
  What a \<open>Child_sync\<close> does to the batch file. The child's copy of the stream has
  the unread characters that the shell's stream has, and the child moves the offset
  back by their number with \<^verbatim>\<open>lseek\<close>, which fails and leaves the offset alone
  when that would put it before the start of the file. \<open>syncs s s'\<close> counts the
  children that did so between two states of the shell.
\<close>

definition sync :: "stream \<Rightarrow> stream" where
  "sync f =
     (if length (unread f) \<le> offset f then f\<lparr>offset := offset f - length (unread f)\<rparr> else f)"

definition syncs :: "shell \<Rightarrow> shell \<Rightarrow> nat" where
  "syncs s s' = length (filter (\<lambda>e. e = Child_sync) (drop (length (events s)) (events s')))"

text \<open>
  The loop of \<^verbatim>\<open>main\<close> for \<^verbatim>\<open>argc == 2\<close>, from the stream that \<^verbatim>\<open>fopen\<close> has
  returned: it reads a line, tokenizes and processes it, until \<^verbatim>\<open>fgets\<close> returns
  NULL; then \<^verbatim>\<open>main\<close> closes the file and returns 0, which ends the process with
  status 0. The shell
  does not touch the stream while it processes a line, so the children of that line
  all find the same unread characters. A child that sets the offset back makes the
  shell read lines again, and the loop is not bound to end: the model counts the
  calls of \<^verbatim>\<open>fgets\<close> it may make, and has no result when the count runs out.
\<close>

fun batch ::
  "nat \<Rightarrow> (nat \<Rightarrow> launch) \<Rightarrow> stream \<Rightarrow> cell list \<Rightarrow> shell \<Rightarrow> (error + shell) option" where
  "batch 0 plat file args s = None"
| "batch (Suc n) plat file args s =
     (case fgets MAX_CMD_LENGTH file of
        (None, file') \<Rightarrow> Some (Inr (s\<lparr>status := Exited 0\<rparr>))
      | (Some line, file') \<Rightarrow>
          (case processInput line args of
             Inl e \<Rightarrow> Some (Inl e)
           | Inr args' \<Rightarrow>
               (case vector args' of
                  None \<Rightarrow> Some (Inl Unterminated)
                | Some toks \<Rightarrow>
                    (case processCommand plat toks s of
                       Inl e \<Rightarrow> Some (Inl e)
                     | Inr s' \<Rightarrow>
                         if status s' = Running
                         then batch n plat ((sync ^^ syncs s s') file') args' s'
                         else Some (Inr s')))))"

section \<open>Notions used in the statements\<close>

text \<open>
  The argument vectors of the calls of \<^verbatim>\<open>executeCommand\<close> that a run has made, in
  order, and the same for a run that may have ended in an error.
\<close>

fun executor_calls :: "event list \<Rightarrow> token list option list" where
  "executor_calls [] = []"
| "executor_calls (Call a # es) = a # executor_calls es"
| "executor_calls (e # es) = executor_calls es"

definition calls :: "error + shell \<Rightarrow> error + token list option list" where
  "calls r = (case r of Inl e \<Rightarrow> Inl e | Inr s \<Rightarrow> Inr (executor_calls (events s)))"

text \<open>
  The vectors that the loop of \<^verbatim>\<open>handleMultipleCommands\<close> hands to
  \<^verbatim>\<open>executeCommand\<close>, computed without the shell: the same loop with the same
  stores, collecting what \<^verbatim>\<open>commands\<close> holds at each call. Lemma \<open>loop_passed\<close>
  shows that the loop of the source is these calls, made one after the other.
\<close>

function passed :: "token list \<Rightarrow> token \<Rightarrow> nat \<Rightarrow> nat \<Rightarrow> cell list \<Rightarrow> error + token list option list" where
  "passed args delimiter i j commands =
     (if i < length args then
        if args ! i = delimiter \<or> i + 1 = length args then
          if j < length commands then
            (case passed args delimiter (i + 1) 0
                    (commands[j := (if i + 1 = length args then Tok (args ! i) else Null)]) of
               Inl e \<Rightarrow> Inl e
             | Inr vs \<Rightarrow>
                 Inr (vector (commands[j := (if i + 1 = length args then Tok (args ! i) else Null)]) # vs))
          else Inl OutOfBounds
        else
          if j < length commands then
            passed args delimiter (i + 1) (j + 1) (commands[j := Tok (args ! i)])
          else Inl OutOfBounds
      else Inr [])"
  by pat_completeness auto
termination
  by (relation "measure (\<lambda>(args, delimiter, i, j, commands). length args - i)") auto

text \<open>
  A vector that holds no occurrence of a token, and a vector all of whose tokens are
  tokens of \<open>args\<close> other than \<open>d\<close>; nothing is said of a vector that is not
  determined. \<open>kept\<close> is the same condition on an entry of \<^verbatim>\<open>commands\<close>.
\<close>

definition free_of :: "token \<Rightarrow> token list option \<Rightarrow> bool" where
  "free_of d v = (case v of None \<Rightarrow> True | Some ts \<Rightarrow> d \<notin> set ts)"

definition drawn_from :: "token list \<Rightarrow> token \<Rightarrow> token list option \<Rightarrow> bool" where
  "drawn_from args d v =
     (case v of None \<Rightarrow> True | Some ts \<Rightarrow> list_all (\<lambda>t. t \<in> set args \<and> t \<noteq> d) ts)"

definition kept :: "token list \<Rightarrow> token \<Rightarrow> cell \<Rightarrow> bool" where
  "kept args d c = (case c of Tok t \<Rightarrow> t \<in> set args \<and> t \<noteq> d | _ \<Rightarrow> True)"

text \<open>
  The five shapes of a line as the specification names them, with the number that
  the comment of \<^verbatim>\<open>getCommandType\<close> gives each, and the classification in the
  specification's words: empty, else a single token that is a built-in name, else
  the first \<open>&&\<close> or \<open>;\<close> by position, else a simple command.
\<close>

datatype classification = Empty | Simple | SequentialGroup | ConditionalGroup | Builtin

fun classification_code :: "classification \<Rightarrow> int" where
  "classification_code Empty = 0"
| "classification_code Simple = 1"
| "classification_code SequentialGroup = 2"
| "classification_code ConditionalGroup = 3"
| "classification_code Builtin = 4"

definition is_delimiter :: "token \<Rightarrow> bool" where
  "is_delimiter t = (t = ''&&'' \<or> t = '';'')"

definition spec_classify :: "token list \<Rightarrow> classification" where
  "spec_classify ts =
     (if ts = [] then Empty
      else if length ts = 1 \<and> (hd ts = ''quit'' \<or> hd ts = ''author'') then Builtin
      else (case find is_delimiter ts of
              Some d \<Rightarrow> if d = ''&&'' then ConditionalGroup else SequentialGroup
            | None \<Rightarrow> Simple))"

text \<open>
  The shell after \<^verbatim>\<open>getCommandType\<close> has classified a line: the table was searched
  for the token of a line of one token, and not at all for any other line.
\<close>

definition looked :: "token list \<Rightarrow> shell \<Rightarrow> shell" where
  "looked args s = (if length args = 1 then emit [Lookup (args ! 0)] s else s)"

text \<open>The line with every \<open>&&\<close> replaced by \<open>;\<close> is \<open>map and_to_semicolon\<close> of the line.\<close>

definition and_to_semicolon :: "token \<Rightarrow> token" where
  "and_to_semicolon t = (if t = ''&&'' then '';'' else t)"





text \<open>
  The tokens of a line: the results of the successive calls of \<^verbatim>\<open>strtok\<close>, up to
  the call that finds nothing. \<open>pending\<close> is what the loop of \<^verbatim>\<open>processInput\<close> has
  still to store: the token in hand and those of the text that is left.
\<close>

function tokens :: "string \<Rightarrow> token list" where
  "tokens text = (case strtok text of None \<Rightarrow> [] | Some (t, rest) \<Rightarrow> t # tokens rest)"
  by pat_completeness auto
termination
  by (relation "measure length") (auto dest: strtok_shorter)

definition pending :: "(token \<times> string) option \<Rightarrow> token list" where
  "pending tk = (case tk of None \<Rightarrow> [] | Some (t, rest) \<Rightarrow> t # tokens rest)"

text \<open>
  Platforms for concrete runs: every launch succeeds, no process can be created, and
  only the first program cannot be started, \<open>k\<close> characters of the shell's output
  being unwritten at that launch.
\<close>

definition always_ok :: "nat \<Rightarrow> launch" where
  "always_ok n = Exec_ok 0"


definition first_fails :: "nat \<Rightarrow> nat \<Rightarrow> launch" where
  "first_fails k n = (if n = 0 then Exec_fails k else Exec_ok 0)"

declare handleMultipleCommands_loop.simps [simp del]
declare getCommandType_loop.simps [simp del]
declare isBuiltin_loop.simps [simp del]
declare executeBuiltinCommand_loop.simps [simp del]
declare passed.simps [simp del]
declare tokens.simps [simp del]
declare fgets_loop.simps [simp del]

section \<open>Vectors in an array\<close>

lemma vector_prefix: "vector (map Tok pre @ Null # rest) = Some pre"
  by (induction pre) auto

lemma array_with_null:
  assumes "j < length a" and "take j a = map Tok pre"
  shows "vector (a[j := Null]) = Some pre"
proof -
  have "a[j := Null] = take j a @ Null # drop (Suc j) a"
    using assms(1) by (simp add: upd_conv_take_nth_drop)
  then show ?thesis by (simp add: assms(2) vector_prefix)
qed


section \<open>The executor's calls\<close>

lemma executor_calls_append: "executor_calls (es @ fs) = executor_calls es @ executor_calls fs"
  by (induction es rule: executor_calls.induct) auto

lemma executeCommand_calls:
  "executor_calls (events (executeCommand plat a s)) = executor_calls (events s) @ [a]"
  by (simp add: executeCommand_def emit_def child_exit_def executor_calls_append
           split: launch.splits)

lemma executeCommand_status: "status (executeCommand plat a s) = status s"
  by (simp add: executeCommand_def emit_def split: launch.splits)

lemma fold_calls:
  "executor_calls (events (fold (executeCommand plat) vs s)) = executor_calls (events s) @ vs"
  by (induction vs arbitrary: s) (auto simp: executeCommand_calls)

lemma fold_status: "status (fold (executeCommand plat) vs s) = status s"
  by (induction vs arbitrary: s) (auto simp: executeCommand_status)

section \<open>The splitter as a sequence of calls\<close>

lemma loop_passed:
  "handleMultipleCommands_loop plat args delimiter i j commands s =
     (case passed args delimiter i j commands of
        Inl e \<Rightarrow> Inl e
      | Inr vs \<Rightarrow> Inr (fold (executeCommand plat) vs s))"
proof (induction plat args delimiter i j commands s rule: handleMultipleCommands_loop.induct)
  case (1 plat args delimiter i j commands s)
  show ?case
    apply (subst handleMultipleCommands_loop.simps)
    apply (subst passed.simps)
    using "1" by (auto split: sum.splits)
qed

lemma handleMultipleCommands_passed:
  "handleMultipleCommands plat args delimiter s =
     (case passed args delimiter 0 0 fresh_array of
        Inl e \<Rightarrow> Inl e
      | Inr vs \<Rightarrow> Inr (fold (executeCommand plat) vs s))"
  by (simp add: handleMultipleCommands_def loop_passed)

lemma calls_handleMultipleCommands:
  "calls (handleMultipleCommands plat args delimiter s) =
     (case passed args delimiter 0 0 fresh_array of
        Inl e \<Rightarrow> Inl e
      | Inr vs \<Rightarrow> Inr (executor_calls (events s) @ vs))"
  by (simp add: handleMultipleCommands_passed calls_def fold_calls split: sum.splits)

lemma passed_total:
  "j + (length args - i) \<le> length commands \<Longrightarrow> \<exists>vs. passed args delimiter i j commands = Inr vs"
proof (induction args delimiter i j commands rule: passed.induct)
  case (1 args delimiter i j commands)
  show ?case
  proof (cases "i < length args")
    case False
    then show ?thesis by (subst passed.simps) simp
  next
    case True
    with "1.prems" have j: "j < length commands" by linarith
    show ?thesis
    proof (cases "args ! i = delimiter \<or> i + 1 = length args")
      case call: True
      let ?c = "commands[j := (if i + 1 = length args then Tok (args ! i) else Null)]"
      have "0 + (length args - (i + 1)) \<le> length ?c"
        using "1.prems" True by simp
      from "1.IH"(1) [OF True call j this]
      obtain vs where "passed args delimiter (i + 1) 0 ?c = Inr vs" by blast
      then show ?thesis
        using True call j by (subst passed.simps) simp
    next
      case keep: False
      have "(j + 1) + (length args - (i + 1)) \<le> length (commands[j := Tok (args ! i)])"
        using "1.prems" True by simp
      from "1.IH"(2) [OF True keep j this]
      obtain vs where "passed args delimiter (i + 1) (j + 1) (commands[j := Tok (args ! i)]) = Inr vs"
        by blast
      then show ?thesis
        using True keep j by (subst passed.simps) simp
    qed
  qed
qed

lemma passed_fresh_total:
  "length args \<le> MAX_NUM_CMDS \<Longrightarrow> \<exists>vs. passed args delimiter 0 0 fresh_array = Inr vs"
  by (rule passed_total) (simp add: fresh_array_def)

subsection \<open>Three commands joined by semicolons\<close>

lemma passed_echo:
  "passed [''echo'', ''a'', '';'', ''echo'', ''b'', '';'', ''echo'', ''c''] '';'' 0 0 fresh_array
     = Inr [Some [''echo'', ''a''], Some [''echo'', ''b''], Some [''echo'', ''c'']]"
  by code_simp

text \<open>
  Claim C8. Splitting \<open>echo a ; echo b ; echo c\<close> on \<open>;\<close> calls the executor three
  times and no more, with the vectors \<open>echo a\<close>, \<open>echo b\<close> and \<open>echo c\<close>, in this
  order, whatever the platform does at each launch and whatever ran before.
\<close>

theorem split_echo_three_times:
  "calls (handleMultipleCommands plat
            [''echo'', ''a'', '';'', ''echo'', ''b'', '';'', ''echo'', ''c''] '';'' s)
     = Inr (executor_calls (events s)
            @ [Some [''echo'', ''a''], Some [''echo'', ''b''], Some [''echo'', ''c'']])"
  by (simp only: calls_handleMultipleCommands passed_echo sum.case)

subsection \<open>The last group is not terminated\<close>

lemma passed_stale:
  "passed [''ls'', ''-l'', ''-a'', '';'', ''pwd''] '';'' 0 0 fresh_array
     = Inr [Some [''ls'', ''-l'', ''-a''], Some [''pwd'', ''-l'', ''-a'']]"
  by code_simp

text \<open>
  Claim C1 does not hold of the code. At the last token the loop stores the token at
  \<^verbatim>\<open>commands[j]\<close> and calls the executor without storing NULL after it, so the
  call reads on into what earlier groups left in the array. For \<open>ls -l -a ; pwd\<close>
  the second call receives \<open>pwd -l -a\<close>, the arguments of the first group, where the
  claim asks for \<open>pwd\<close> alone.
\<close>

theorem last_group_keeps_earlier_tokens:
  "calls (handleMultipleCommands plat [''ls'', ''-l'', ''-a'', '';'', ''pwd''] '';'' s)
     = Inr (executor_calls (events s)
            @ [Some [''ls'', ''-l'', ''-a''], Some [''pwd'', ''-l'', ''-a'']])"
  by (simp only: calls_handleMultipleCommands passed_stale sum.case)

subsection \<open>Empty groups\<close>

lemma passed_empty_group:
  "passed [''ls'', '';'', '';'', ''pwd''] '';'' 0 0 fresh_array
     = Inr [Some [''ls''], Some [], Some [''pwd'']]"
  by code_simp

text \<open>
  Claim C4 does not hold of the code. The branch taken at a delimiter stores NULL at
  \<^verbatim>\<open>commands[j]\<close> and calls the executor without looking at \<open>j\<close>, so a delimiter
  that follows a delimiter makes a call with the empty vector. For \<open>ls ; ; pwd\<close> the
  executor is called three times, the second time with no token at all.
\<close>

theorem empty_group_is_executed:
  "calls (handleMultipleCommands plat [''ls'', '';'', '';'', ''pwd''] '';'' s)
     = Inr (executor_calls (events s) @ [Some [''ls''], Some [], Some [''pwd'']])"
  by (simp only: calls_handleMultipleCommands passed_empty_group sum.case)

section \<open>Delimiters in the vectors of the splitter\<close>

lemma vector_kept: "vector cs = Some ts \<Longrightarrow> list_all (kept args d) cs \<Longrightarrow> list_all (\<lambda>t. t \<in> set args \<and> t \<noteq> d) ts"
  by (induction cs arbitrary: ts rule: vector.induct) (auto simp: kept_def split: option.splits)

lemma kept_update: "list_all (kept args d) cs \<Longrightarrow> kept args d c \<Longrightarrow> list_all (kept args d) (cs[j := c])"
  unfolding list_all_iff using set_update_subset_insert [of cs j c] by auto

lemma passed_drawn:
  assumes "passed args delimiter i j commands = Inr vs"
    and "list_all (kept args delimiter) commands"
    and "args = [] \<or> last args \<noteq> delimiter"
  shows "list_all (drawn_from args delimiter) vs"
  using assms
proof (induction args delimiter i j commands arbitrary: vs rule: passed.induct)
  case (1 args delimiter i j commands)
  show ?case
  proof (cases "i < length args")
    case False
    with "1.prems"(1) show ?thesis by (subst (asm) passed.simps) simp
  next
    case True
    then have mem: "args ! i \<in> set args" by simp
    show ?thesis
    proof (cases "args ! i = delimiter \<or> i + 1 = length args")
      case call: True
      let ?c = "commands[j := (if i + 1 = length args then Tok (args ! i) else Null)]"
      from "1.prems"(1) True call have j: "j < length commands"
        by (subst (asm) passed.simps) (simp split: if_splits)
      from "1.prems"(1) True call j obtain ws
        where ws: "passed args delimiter (i + 1) 0 ?c = Inr ws" and vs: "vs = vector ?c # ws"
        by (subst (asm) passed.simps) (auto split: sum.splits)
      have stored: "kept args delimiter (if i + 1 = length args then Tok (args ! i) else Null)"
      proof (cases "i + 1 = length args")
        case True
        then have ne: "args \<noteq> []" and i: "length args - Suc 0 = i"
          by auto
        have "last args = args ! i"
          using last_conv_nth [OF ne] by (simp add: i)
        with "1.prems"(3) ne True mem show ?thesis by (auto simp: kept_def)
      next
        case False
        then show ?thesis by (simp add: kept_def)
      qed
      have clean: "list_all (kept args delimiter) ?c"
        by (rule kept_update [OF "1.prems"(2) stored])
      have "drawn_from args delimiter (vector ?c)"
        using vector_kept [OF _ clean] by (auto simp: drawn_from_def split: option.splits)
      moreover have "list_all (drawn_from args delimiter) ws"
        by (rule "1.IH"(1) [OF True call j ws clean "1.prems"(3)])
      ultimately show ?thesis by (simp add: vs)
    next
      case keep: False
      from "1.prems"(1) True keep have j: "j < length commands"
        by (subst (asm) passed.simps) (simp split: if_splits)
      from "1.prems"(1) True keep j
      have ws: "passed args delimiter (i + 1) (j + 1) (commands[j := Tok (args ! i)]) = Inr vs"
        by (subst (asm) passed.simps) simp
      have "kept args delimiter (Tok (args ! i))"
        using keep mem by (simp add: kept_def)
      then have clean: "list_all (kept args delimiter) (commands[j := Tok (args ! i)])"
        by (rule kept_update [OF "1.prems"(2)])
      show ?thesis
        by (rule "1.IH"(2) [OF True keep j ws clean "1.prems"(3)])
    qed
  qed
qed

lemma fresh_array_kept: "list_all (kept args d) fresh_array"
  by (simp add: fresh_array_def kept_def list_all_iff)

lemma drawn_free_of:
  "drawn_from args d v \<Longrightarrow> d' = d \<or> d' \<notin> set args \<Longrightarrow> free_of d' v"
  by (auto simp: drawn_from_def free_of_def list_all_iff split: option.splits)

lemma passed_mixed:
  "passed [''a'', '';'', ''b'', ''&&'', '';'', ''c''] '';'' 0 0 fresh_array
     = Inr [Some [''a''], Some [''b'', ''&&''], Some [''c'', ''&&'']]"
  by code_simp

lemma passed_trailing:
  "passed [''ls'', ''-l'', '';'', ''pwd'', '';''] '';'' 0 0 fresh_array
     = Inr [Some [''ls'', ''-l''], Some [''pwd'', '';'']]"
  by code_simp

text \<open>
  Claim C2 fails as stated. The splitter compares each token with the one delimiter
  it was given, so on the line \<open>a ; b && ; c\<close>, split on \<open>;\<close>, the token \<open>&&\<close> is an
  ordinary token of the second group and reaches the executor (and then stays in
  the array for the third call). On \<open>ls -l ; pwd ;\<close> the final \<open>;\<close> is stored as the
  last token of its group.
\<close>

theorem splitter_passes_delimiters:
  "calls (handleMultipleCommands always_ok [''a'', '';'', ''b'', ''&&'', '';'', ''c''] '';'' shell0)
     = Inr [Some [''a''], Some [''b'', ''&&''], Some [''c'', ''&&'']]
   \<and> calls (handleMultipleCommands always_ok [''ls'', ''-l'', '';'', ''pwd'', '';''] '';'' shell0)
     = Inr [Some [''ls'', ''-l''], Some [''pwd'', '';'']]"
  by (simp add: calls_handleMultipleCommands passed_mixed passed_trailing shell0_def)

text \<open>
  Claim C2 as amended. For a token sequence of at most \<open>MAX_NUM_CMDS\<close> tokens whose
  last token is not the delimiter the splitter was given, the splitter runs to its
  end, and every vector it passes to the executor is made of tokens of the sequence
  other than that delimiter (a vector that runs into entries never written is not
  determined, and nothing is said of it). So no vector holds the given delimiter,
  and none holds the other delimiter unless the sequence itself does, where it is a
  token like any other.
\<close>

theorem splitter_calls_free_of_delimiter:
  assumes "length args \<le> MAX_NUM_CMDS" and "args = [] \<or> last args \<noteq> delimiter"
  shows "\<exists>vs. calls (handleMultipleCommands plat args delimiter s)
                 = Inr (executor_calls (events s) @ vs)
              \<and> list_all (drawn_from args delimiter) vs
              \<and> list_all (free_of delimiter) vs
              \<and> (other \<notin> set args \<longrightarrow> list_all (free_of other) vs)"
proof -
  from passed_fresh_total [OF assms(1)]
  obtain vs where vs: "passed args delimiter 0 0 fresh_array = Inr vs" by blast
  have d: "list_all (drawn_from args delimiter) vs"
    by (rule passed_drawn [OF vs fresh_array_kept assms(2)])
  then have "list_all (free_of delimiter) vs"
    unfolding list_all_iff using drawn_free_of by blast
  moreover have "other \<notin> set args \<longrightarrow> list_all (free_of other) vs"
    using d unfolding list_all_iff using drawn_free_of by blast
  ultimately show ?thesis
    using d by (simp add: calls_handleMultipleCommands vs)
qed

theorem splitter_calls_free_of_delimiter_witness:
  "\<exists>vs. calls (handleMultipleCommands always_ok [''ls'', ''-l'', '';'', ''pwd''] '';'' shell0)
           = Inr (executor_calls (events shell0) @ vs)
        \<and> list_all (drawn_from [''ls'', ''-l'', '';'', ''pwd''] '';'') vs
        \<and> list_all (free_of '';'') vs
        \<and> list_all (free_of ''&&'') vs"
  using splitter_calls_free_of_delimiter
          [of "[''ls'', ''-l'', '';'', ''pwd'']" "'';''" always_ok shell0 "''&&''"]
  by (simp add: MAX_NUM_CMDS_def)

section \<open>The classifier\<close>

lemma isBuiltin_eq:
  "isBuiltin t s = (if t = ''quit'' \<or> t = ''author'' then 1 else 0, emit [Lookup t] s)"
  by (simp add: isBuiltin_def isBuiltin_loop.simps numOfBuiltinCommands_def builtinCommands_def)

lemma getCommandType_loop_find:
  "getCommandType_loop args i =
     (case find is_delimiter (drop i args) of
        None \<Rightarrow> 1
      | Some d \<Rightarrow> if d = ''&&'' then 3 else 2)"
proof (induction args i rule: getCommandType_loop.induct)
  case (1 args i)
  show ?case
  proof (cases "i < length args")
    case False
    then show ?thesis by (subst getCommandType_loop.simps) simp
  next
    case True
    then have d: "drop i args = args ! i # drop (i + 1) args"
      by (simp add: Cons_nth_drop_Suc)
    have head: "is_delimiter (args ! i) = (args ! i = ''&&'' \<or> args ! i = '';'')"
      by (simp add: is_delimiter_def)
    show ?thesis
      apply (subst getCommandType_loop.simps)
      using True "1.IH" by (auto simp: d head)
  qed
qed

lemma getCommandType_find:
  "fst (getCommandType args s) =
     (if args = [] then 0
      else if length args = 1 \<and> (hd args = ''quit'' \<or> hd args = ''author'') then 4
      else (case find is_delimiter args of
              None \<Rightarrow> 1
            | Some d \<Rightarrow> if d = ''&&'' then 3 else 2))"
proof (cases args)
  case Nil
  then show ?thesis by (simp add: getCommandType_def)
next
  case (Cons t ts)
  then show ?thesis
    by (simp add: getCommandType_def isBuiltin_eq getCommandType_loop_find)
qed

lemma getCommandType_looked: "snd (getCommandType args s) = looked args s"
  by (cases args) (simp_all add: getCommandType_def isBuiltin_eq looked_def)

text \<open>
  Claim C5. \<^verbatim>\<open>getCommandType\<close> returns the number of the shape that the
  specification's classification gives: Empty for the empty sequence, Builtin
  exactly for a single token that is \<open>quit\<close> or \<open>author\<close>, otherwise the shape of
  the first delimiter by position, otherwise Simple.
\<close>

theorem getCommandType_classifies:
  "fst (getCommandType args s) = classification_code (spec_classify args)"
proof (cases "args = []")
  case True
  then show ?thesis by (simp add: getCommandType_find spec_classify_def)
next
  case False
  show ?thesis
  proof (cases "length args = 1 \<and> (hd args = ''quit'' \<or> hd args = ''author'')")
    case True
    with False show ?thesis by (simp add: getCommandType_find spec_classify_def)
  next
    case single: False
    show ?thesis
    proof (cases "find is_delimiter args")
      case None
      with False single show ?thesis by (simp add: getCommandType_find spec_classify_def)
    next
      case (Some d)
      with False single show ?thesis by (simp add: getCommandType_find spec_classify_def)
    qed
  qed
qed

theorem getCommandType_classifies_witness:
  "fst (getCommandType [''quit''] shell0) = classification_code Builtin
   \<and> fst (getCommandType [''quit'', ''now''] shell0) = classification_code Simple
   \<and> fst (getCommandType [''a'', '';'', ''b'', ''&&'', ''c''] shell0)
       = classification_code SequentialGroup
   \<and> fst (getCommandType [''a'', ''&&'', ''b'', '';'', ''c''] shell0)
       = classification_code ConditionalGroup"
  using getCommandType_classifies [of "[''quit'']" shell0]
    getCommandType_classifies [of "[''quit'', ''now'']" shell0]
    getCommandType_classifies [of "[''a'', '';'', ''b'', ''&&'', ''c'']" shell0]
    getCommandType_classifies [of "[''a'', ''&&'', ''b'', '';'', ''c'']" shell0]
  by (simp add: spec_classify_def is_delimiter_def)





lemma getCommandType_4:
  "fst (getCommandType args s) = 4 \<longleftrightarrow> args = [''quit''] \<or> args = [''author'']"
proof (cases args)
  case Nil
  then show ?thesis by (simp add: getCommandType_find)
next
  case (Cons t ts)
  then show ?thesis
    by (cases ts) (auto simp: getCommandType_find split: option.splits)
qed

lemma getCommandType_range: "fst (getCommandType args s) \<in> {0, 1, 2, 3, 4}"
  by (simp add: getCommandType_find split: option.splits)

text \<open>\<^verbatim>\<open>processCommand\<close> by the number of the line and the shell after the classification.\<close>

lemma processCommand_unfold:
  "processCommand plat args s =
     (if fst (getCommandType args s) = 0 then Inr (looked args s)
      else if fst (getCommandType args s) = 1 then Inr (executeCommand plat (Some args) (looked args s))
      else if fst (getCommandType args s) = 2 then handleMultipleCommands plat args '';'' (looked args s)
      else if fst (getCommandType args s) = 3 then handleMultipleCommands plat args ''&&'' (looked args s)
      else if fst (getCommandType args s) = 4 then Inr (executeBuiltinCommand (args ! 0) (looked args s))
      else Inr (emit [Stderr (''Error: Unrecognized command type.'' @ [CHR 0x0A])] (looked args s)))"
  using getCommandType_looked [of args s]
  by (cases "getCommandType args s") (simp add: processCommand_def)

section \<open>Conditional and sequential lines\<close>





lemma looked_calls: "executor_calls (events (looked args s)) = executor_calls (events s)"
  by (simp add: looked_def emit_def executor_calls_append)

lemma looked_status: "status (looked args s) = status s"
  by (simp add: looked_def emit_def)













text \<open>
  A line that ends with \<open>&&\<close> differs from its replacement as well: the last
  statement of the splitter's loop stores the final token, delimiter or not, and the
  two lines end with different tokens.
\<close>

lemma trailing_and_differs:
  "calls (processCommand always_ok [''x'', ''y'', ''z'', ''&&'', ''a'', ''&&''] shell0)
     = Inr [Some [''x'', ''y'', ''z''], Some [''a'', ''&&'', ''z'']]
   \<and> calls (processCommand always_ok
              (map and_to_semicolon [''x'', ''y'', ''z'', ''&&'', ''a'', ''&&'']) shell0)
     = Inr [Some [''x'', ''y'', ''z''], Some [''a'', '';'', ''z'']]"
  by code_simp

text \<open>
  A group of \<open>MAX_NUM_CMDS\<close> tokens or more that a delimiter closes does not fit
  the array of the splitter.
\<close>

lemma full_group_overflows:
  "processCommand always_ok (replicate 20 ''a'' @ [''&&'', ''b'']) shell0 = Inl OutOfBounds"
  by code_simp



section \<open>Built-in names inside a group\<close>






section \<open>The tokenizer and the array of main\<close>

lemma pending_strtok: "pending (strtok text) = tokens text"
  by (subst tokens.simps) (simp add: pending_def split: option.splits)

lemma processInput_loop_bounds:
  "(processInput_loop tk j args = Inl OutOfBounds) = (length args \<le> j + length (pending tk))"
proof (induction tk j args rule: processInput_loop.induct)
  case (1 j args)
  then show ?case by (simp add: pending_def)
next
  case (2 t rest j args)
  show ?case
  proof (cases "j < length args")
    case True
    from "2.IH" [OF True] True show ?thesis
      by (simp add: pending_strtok) (simp add: pending_def)
  next
    case False
    then show ?thesis by (simp add: pending_def)
  qed
qed

lemma processInput_loop_error: "processInput_loop tk j args = Inl e \<Longrightarrow> e = OutOfBounds"
  by (induction tk j args rule: processInput_loop.induct) (auto split: if_splits)

lemma processInput_loop_length:
  "processInput_loop tk j args = Inr args' \<Longrightarrow> length args' = length args"
  by (induction tk j args rule: processInput_loop.induct) (auto split: if_splits)

lemma processInput_loop_vector:
  "processInput_loop tk j args = Inr args' \<Longrightarrow> take j args = map Tok pre
     \<Longrightarrow> vector args' = Some (pre @ pending tk)"
proof (induction tk j args arbitrary: pre rule: processInput_loop.induct)
  case (1 j args)
  then show ?case
    by (auto simp: pending_def array_with_null split: if_splits)
next
  case (2 t rest j args)
  from "2.prems"(1) have j: "j < length args"
    and r: "processInput_loop (strtok rest) (j + 1) (args[j := Tok t]) = Inr args'"
    by (simp_all split: if_splits)
  have "take (j + 1) (args[j := Tok t]) = map Tok (pre @ [t])"
    using j "2.prems"(2) by (simp add: take_Suc_conv_app_nth)
  from "2.IH" [OF j r this] show ?case
    by (simp add: pending_strtok) (simp add: pending_def)
qed

text \<open>
  \<^verbatim>\<open>processInput\<close> stores past the end of \<^verbatim>\<open>args\<close> exactly when the line has at
  least as many tokens as the array has entries; otherwise the array it leaves is
  the NULL-terminated vector of the tokens of the line.
\<close>

lemma processInput_overflow:
  "(processInput line args = Inl OutOfBounds) = (length args \<le> length (tokens line))"
  by (simp add: processInput_def processInput_loop_bounds pending_strtok)

lemma processInput_ok:
  assumes "processInput line args = Inr args'"
  shows "vector args' = Some (tokens line) \<and> length args' = length args"
  using processInput_loop_vector [of "strtok line" 0 args args' "[]"]
    processInput_loop_length [of "strtok line" 0 args args'] assms
  by (simp add: processInput_def pending_strtok)

lemma processInput_total:
  assumes "length (tokens line) < length args"
  shows "\<exists>args'. processInput line args = Inr args'"
proof (cases "processInput line args")
  case (Inl e)
  then have "e = OutOfBounds" by (simp add: processInput_def processInput_loop_error)
  with Inl assms show ?thesis by (simp add: processInput_overflow)
next
  case (Inr a)
  then show ?thesis by blast
qed

text \<open>
  Claim C3 does not hold of the code. Nothing in \<^verbatim>\<open>processInput\<close> compares \<open>j\<close>
  with the size of the array, which \<^verbatim>\<open>main\<close> declares with \<open>MAX_NUM_CMDS\<close> = 20
  entries, while a line of \<^verbatim>\<open>fgets\<close> can hold many more tokens. A line of twenty
  tokens, short enough for \<^verbatim>\<open>fgets\<close> to return it whole, fills \<^verbatim>\<open>args[0]\<close> to
  \<^verbatim>\<open>args[19]\<close>, and the terminating NULL is stored at \<^verbatim>\<open>args[20]\<close>, past the
  end of the array.
\<close>

theorem twenty_tokens_overflow_args:
  "length ''a a a a a a a a a a a a a a a a a a a a'' < MAX_CMD_LENGTH
   \<and> processInput ''a a a a a a a a a a a a a a a a a a a a'' fresh_array = Inl OutOfBounds"
  by code_simp

section \<open>A failed launch and the streams of the shell\<close>

text \<open>
  Claim C7 does not hold of the code. After a failed \<^verbatim>\<open>execvp\<close> the child calls
  \<^verbatim>\<open>exit\<close>, not \<^verbatim>\<open>_exit\<close>, and so runs the cleanup of stdio on its copies of the
  shell's streams; the claim has the child write a diagnostic to standard error and
  exit, and the failure leave the shell's state unaffected.

  In an interactive session whose standard output is a pipe, the prompt is still in
  the buffer of \<^verbatim>\<open>stdout\<close> when the line \<open>nosuch\<close> is launched: the child writes
  the prompt to standard output, where the shell will write it once more.

  In a batch run of the file with the two lines \<open>nosuch\<close> and \<open>ls\<close>, the first read
  has brought both lines into the buffer of the stream. The child of the first line
  sets the offset of the file back to the end of that line. The shell runs \<open>ls\<close>
  from its buffer, then reads the file from the offset on, finds \<open>ls\<close> again and runs
  it a second time.
\<close>

theorem failed_exec_disturbs_the_shell:
  "interactive (first_fails 9) [Some (''nosuch'' @ [CHR 0x0A])] fresh_array shell0
     = Inr \<lparr>events = [Stdout ''myshell> '', Lookup ''nosuch'', Call (Some [''nosuch'']),
                      Child_stderr ''Error executing command'', Child_stdout ''myshell> '',
                      Child_sync, Child_exit 1, Wait],
            forks = 1, status = Running\<rparr>
   \<and> batch 4 (first_fails 0) (fopen (''nosuch'' @ [CHR 0x0A] @ ''ls'' @ [CHR 0x0A]) 4096)
        fresh_array shell0
     = Some (Inr \<lparr>events = [Lookup ''nosuch'', Call (Some [''nosuch'']),
                            Child_stderr ''Error executing command'', Child_sync, Child_exit 1, Wait,
                            Lookup ''ls'', Call (Some [''ls'']), Child_image, Child_exit 0, Wait,
                            Lookup ''ls'', Call (Some [''ls'']), Child_image, Child_exit 0, Wait],
                  forks = 3, status = Exited 0\<rparr>)"
  by code_simp

text \<open>
  On a platform that starts both programs the same file is run line by line, each
  line once.
\<close>

lemma batch_runs_each_line_once:
  "batch 3 always_ok (fopen (''nosuch'' @ [CHR 0x0A] @ ''ls'' @ [CHR 0x0A]) 4096)
     fresh_array shell0
     = Some (Inr \<lparr>events = [Lookup ''nosuch'', Call (Some [''nosuch'']),
                            Child_image, Child_exit 0, Wait,
                            Lookup ''ls'', Call (Some [''ls'']), Child_image, Child_exit 0, Wait],
                  forks = 2, status = Exited 0\<rparr>)"
  by code_simp

section \<open>The interactive session\<close>

lemma executeBuiltinCommand_eq:
  "executeBuiltinCommand t s =
     (if t = ''quit'' then quitShell (emit [Lookup t] s)
      else if t = ''author'' then displayAuthor (emit [Lookup t] s)
      else emit [Stderr (''Error: Something is terribly wrong in my code.'' @ [CHR 0x0A])] (emit [Lookup t] s))"
  by (simp add: executeBuiltinCommand_def executeBuiltinCommand_loop.simps
      numOfBuiltinCommands_def builtinCommands_def)

lemma handleMultipleCommands_status:
  "handleMultipleCommands plat args d s = Inr s' \<Longrightarrow> status s' = status s"
  by (auto simp: handleMultipleCommands_passed fold_status split: sum.splits)

lemma processCommand_status:
  assumes "processCommand plat toks s = Inr s'"
  shows "status s' = status s \<or> (toks = [''quit''] \<and> status s' = Exited 0)"
proof -
  from getCommandType_range [of toks s]
  consider "fst (getCommandType toks s) = 0" | "fst (getCommandType toks s) = 1"
    | "fst (getCommandType toks s) = 2" | "fst (getCommandType toks s) = 3"
    | "fst (getCommandType toks s) = 4" by auto
  then show ?thesis
  proof cases
    case 1
    with assms show ?thesis by (auto simp: processCommand_unfold looked_status)
  next
    case 2
    with assms show ?thesis
      by (auto simp: processCommand_unfold executeCommand_status looked_status)
  next
    case 3
    with assms handleMultipleCommands_status [of plat toks "'';''" "looked toks s" s']
    show ?thesis by (simp add: processCommand_unfold looked_status)
  next
    case 4
    with assms handleMultipleCommands_status [of plat toks "''&&''" "looked toks s" s']
    show ?thesis by (simp add: processCommand_unfold looked_status)
  next
    case 5
    then have "toks = [''quit''] \<or> toks = [''author'']" by (simp add: getCommandType_4)
    with 5 assms show ?thesis
      by (auto simp: processCommand_unfold executeBuiltinCommand_eq quitShell_def
          displayAuthor_def emit_def looked_def)
  qed
qed

lemma processCommand_error:
  assumes "processCommand plat toks s = Inl e"
  shows "MAX_NUM_CMDS < length toks"
proof (rule ccontr)
  assume "\<not> MAX_NUM_CMDS < length toks"
  then have len: "length toks \<le> MAX_NUM_CMDS" by simp
  obtain v1 where v1: "passed toks '';'' 0 0 fresh_array = Inr v1"
    using passed_fresh_total [OF len] by blast
  obtain v2 where v2: "passed toks ''&&'' 0 0 fresh_array = Inr v2"
    using passed_fresh_total [OF len] by blast
  from assms show False
    by (simp add: processCommand_unfold handleMultipleCommands_passed v1 v2 split: if_splits)
qed

lemma interactive_failed_reads:
  "interactive plat (replicate n None @ reads) args s
     = interactive plat reads args (emit (replicate n (Stdout ''myshell> '')) s)"
proof (induction n arbitrary: s)
  case 0
  show ?case by (simp add: emit_def)
next
  case (Suc n)
  have "emit (replicate n (Stdout ''myshell> '')) (emit [Stdout ''myshell> ''] s)
        = emit (replicate (Suc n) (Stdout ''myshell> '')) s"
    by (simp add: emit_def replicate_append_same)
  with Suc show ?case by simp
qed

lemma interactive_exit:
  assumes "interactive plat reads args s = Inr s'" and "status s = Running" and "status s' \<noteq> Running"
  shows "status s' = Exited 0 \<and> (\<exists>line. Some line \<in> set reads \<and> tokens line = [''quit''])"
  using assms
proof (induction reads arbitrary: args s)
  case Nil
  then show ?case by simp
next
  case (Cons r reads)
  show ?case
  proof (cases r)
    case None
    from Cons.prems have "interactive plat reads args (emit [Stdout ''myshell> ''] s) = Inr s'"
      by (simp add: None)
    moreover have "status (emit [Stdout ''myshell> ''] s) = Running"
      using Cons.prems(2) by (simp add: emit_def)
    ultimately show ?thesis
      using Cons.IH Cons.prems(3) by fastforce
  next
    case (Some line)
    let ?s1 = "emit [Stdout ''myshell> ''] s"
    from Cons.prems(1) obtain args' where a: "processInput line args = Inr args'"
      by (auto simp: Some split: sum.splits)
    then have v: "vector args' = Some (tokens line)" by (simp add: processInput_ok)
    from Cons.prems(1) a v obtain s2 where p: "processCommand plat (tokens line) ?s1 = Inr s2"
      by (auto simp: Some split: sum.splits)
    have s1: "status ?s1 = Running" using Cons.prems(2) by (simp add: emit_def)
    show ?thesis
    proof (cases "status s2 = Running")
      case True
      with Cons.prems(1) a v p have "interactive plat reads args' s2 = Inr s'"
        by (simp add: Some)
      from Cons.IH [OF this True Cons.prems(3)] show ?thesis by auto
    next
      case False
      with Cons.prems(1) a v p have eq: "s' = s2" by (simp add: Some)
      from processCommand_status [OF p] False s1
      have "tokens line = [''quit''] \<and> status s2 = Exited 0" by auto
      with eq show ?thesis by (auto simp: Some)
    qed
  qed
qed

lemma interactive_error:
  assumes "interactive plat reads args s = Inl e" and "length args = MAX_NUM_CMDS"
  shows "\<exists>line. Some line \<in> set reads \<and> MAX_NUM_CMDS \<le> length (tokens line)"
  using assms
proof (induction reads arbitrary: args s)
  case Nil
  then show ?case by simp
next
  case (Cons r reads)
  show ?case
  proof (cases r)
    case None
    with Cons.prems have "interactive plat reads args (emit [Stdout ''myshell> ''] s) = Inl e"
      by simp
    from Cons.IH [OF this Cons.prems(2)] show ?thesis by auto
  next
    case (Some line)
    let ?s1 = "emit [Stdout ''myshell> ''] s"
    show ?thesis
    proof (cases "processInput line args")
      case (Inl e')
      then have "e' = OutOfBounds" by (simp add: processInput_def processInput_loop_error)
      with Inl have "length args \<le> length (tokens line)" by (simp add: processInput_overflow)
      with Cons.prems(2) show ?thesis by (auto simp: Some)
    next
      case (Inr args')
      then have v: "vector args' = Some (tokens line)" and l: "length args' = length args"
        by (simp_all add: processInput_ok)
      have short: "length (tokens line) < length args"
      proof (rule ccontr)
        assume "\<not> length (tokens line) < length args"
        then have "processInput line args = Inl OutOfBounds" by (simp add: processInput_overflow)
        with Inr show False by simp
      qed
      show ?thesis
      proof (cases "processCommand plat (tokens line) ?s1")
        case bad: (Inl e')
        from processCommand_error [OF bad] short Cons.prems(2) show ?thesis by simp
      next
        case ok: (Inr s2)
        with Cons.prems(1) Inr v have "interactive plat reads args' s2 = Inl e"
          by (simp add: Some split: if_splits)
        from Cons.IH [OF this] l Cons.prems(2) show ?thesis by auto
      qed
    qed
  qed
qed

lemma prompts_are_no_calls: "executor_calls (replicate n (Stdout p)) = []"
  by (induction n) auto

lemma run_quit:
  "interactive always_ok [None, None, Some ''quit'', Some ''ls''] fresh_array shell0
     = Inr \<lparr>events = [Stdout ''myshell> '', Stdout ''myshell> '', Stdout ''myshell> '',
                      Lookup ''quit'', Lookup ''quit''],
            forks = 0, status = Exited 0\<rparr>"
  by code_simp

lemma run_long:
  "interactive always_ok [None, Some ''a a a a a a a a a a a a a a a a a a a a''] fresh_array shell0
     = Inl OutOfBounds"
  by code_simp

text \<open>
  Claim C9. In the interactive loop a failed read prints the prompt again and does
  nothing else: after any number of failed reads the session is where it was, still
  running, with that many prompts written and no line processed, and it goes on
  with the reads that follow. A session that has exited has exited with status 0 and
  has read a line whose only token is \<open>quit\<close>. (A run of the model ends in an error
  only at a line of \<open>MAX_NUM_CMDS\<close> tokens or more, where the stores of
  \<^verbatim>\<open>processInput\<close> leave the array and C defines no behaviour; no read failure leads
  there.)
\<close>

theorem read_failure_only_reprompts:
  "interactive plat (replicate n None) args s = Inr (emit (replicate n (Stdout ''myshell> '')) s)
   \<and> status (emit (replicate n (Stdout ''myshell> '')) s) = status s
   \<and> executor_calls (events (emit (replicate n (Stdout ''myshell> '')) s))
       = executor_calls (events s)
   \<and> interactive plat (replicate n None @ reads) args s
       = interactive plat reads args (emit (replicate n (Stdout ''myshell> '')) s)
   \<and> (status s = Running \<and> interactive plat reads args s = Inr s' \<and> status s' \<noteq> Running \<longrightarrow>
        status s' = Exited 0 \<and> (\<exists>line. Some line \<in> set reads \<and> tokens line = [''quit'']))
   \<and> (length args = MAX_NUM_CMDS \<and> interactive plat reads args s = Inl e \<longrightarrow>
        (\<exists>line. Some line \<in> set reads \<and> MAX_NUM_CMDS \<le> length (tokens line)))"
proof (intro conjI impI)
  show "interactive plat (replicate n None) args s = Inr (emit (replicate n (Stdout ''myshell> '')) s)"
    using interactive_failed_reads [of plat n "[]" args s] by simp
next
  show "status (emit (replicate n (Stdout ''myshell> '')) s) = status s"
    by (simp add: emit_def)
next
  show "executor_calls (events (emit (replicate n (Stdout ''myshell> '')) s))
       = executor_calls (events s)"
    by (simp add: emit_def executor_calls_append prompts_are_no_calls)
next
  show "interactive plat (replicate n None @ reads) args s
       = interactive plat reads args (emit (replicate n (Stdout ''myshell> '')) s)"
    by (rule interactive_failed_reads)
next
  assume "status s = Running \<and> interactive plat reads args s = Inr s' \<and> status s' \<noteq> Running"
  then show "status s' = Exited 0" and "\<exists>line. Some line \<in> set reads \<and> tokens line = [''quit'']"
    using interactive_exit [of plat reads args s s'] by blast+
next
  assume "length args = MAX_NUM_CMDS \<and> interactive plat reads args s = Inl e"
  then show "\<exists>line. Some line \<in> set reads \<and> MAX_NUM_CMDS \<le> length (tokens line)"
    using interactive_error [of plat reads args s e] by blast
qed

theorem read_failure_only_reprompts_witness:
  "interactive always_ok (replicate 2 None) fresh_array shell0
     = Inr (emit (replicate 2 (Stdout ''myshell> '')) shell0)
   \<and> interactive always_ok [None, None, Some ''quit'', Some ''ls''] fresh_array shell0
     = Inr \<lparr>events = [Stdout ''myshell> '', Stdout ''myshell> '', Stdout ''myshell> '',
                      Lookup ''quit'', Lookup ''quit''],
            forks = 0, status = Exited 0\<rparr>
   \<and> (\<exists>line. Some line \<in> set [None, None, Some ''quit'', Some ''ls''] \<and> tokens line = [''quit''])
   \<and> interactive always_ok [None, Some ''a a a a a a a a a a a a a a a a a a a a''] fresh_array shell0
     = Inl OutOfBounds
   \<and> (\<exists>line. Some line \<in> set [None, Some ''a a a a a a a a a a a a a a a a a a a a'']
          \<and> MAX_NUM_CMDS \<le> length (tokens line))"
proof -
  let ?quit = "\<lparr>events = [Stdout ''myshell> '', Stdout ''myshell> '', Stdout ''myshell> '',
                           Lookup ''quit'', Lookup ''quit''],
                 forks = 0, status = Exited 0\<rparr>"
  note quit = read_failure_only_reprompts
          [where plat = always_ok and n = 2 and args = fresh_array and s = shell0
             and reads = "[None, None, Some ''quit'', Some ''ls'']" and s' = ?quit]
  note long = read_failure_only_reprompts
          [where plat = always_ok and n = 0 and args = fresh_array and s = shell0
             and reads = "[None, Some ''a a a a a a a a a a a a a a a a a a a a'']"
             and e = OutOfBounds]
  have h1: "status shell0 = Running
            \<and> interactive always_ok [None, None, Some ''quit'', Some ''ls''] fresh_array shell0
                = Inr ?quit
            \<and> status ?quit \<noteq> Running"
  proof (intro conjI)
    show "status shell0 = Running" by (simp add: shell0_def)
    show "interactive always_ok [None, None, Some ''quit'', Some ''ls''] fresh_array shell0
                = Inr ?quit"
      by (rule run_quit)
    show "status ?quit \<noteq> Running" by simp
  qed
  have h2: "length fresh_array = MAX_NUM_CMDS
            \<and> interactive always_ok [None, Some ''a a a a a a a a a a a a a a a a a a a a'']
                 fresh_array shell0 = Inl OutOfBounds"
  proof (intro conjI)
    show "length fresh_array = MAX_NUM_CMDS" by (simp add: fresh_array_def)
    show "interactive always_ok [None, Some ''a a a a a a a a a a a a a a a a a a a a'']
                 fresh_array shell0 = Inl OutOfBounds"
      by (rule run_long)
  qed
  from quit h1 have c1: "\<exists>line. Some line \<in> set [None, None, Some ''quit'', Some ''ls'']
                               \<and> tokens line = [''quit'']"
    by blast
  from long h2 have c2: "\<exists>line. Some line \<in> set [None, Some ''a a a a a a a a a a a a a a a a a a a a'']
          \<and> MAX_NUM_CMDS \<le> length (tokens line)"
    by blast
  from quit have c0: "interactive always_ok (replicate 2 None) fresh_array shell0
     = Inr (emit (replicate 2 (Stdout ''myshell> '')) shell0)"
    by blast
  from c0 h1 c1 h2 c2 show ?thesis by blast
qed

section \<open>Further properties of the tokenizer and the built-ins\<close>

lemma tokens_example:
  "tokens (''echo   hi'' @ [CHR 0x09] @ ''there'' @ [CHR 0x0A]) = [''echo'', ''hi'', ''there'']"
  by code_simp

text \<open>
  A line with fewer tokens than \<^verbatim>\<open>args\<close> has entries is tokenized inside the array:
  \<^verbatim>\<open>processInput\<close> returns, the array keeps its size, and it holds the tokens of the
  line, in order, followed by NULL.
\<close>

theorem processInput_within_capacity:
  assumes "length (tokens line) < length args"
  shows "\<exists>args'. processInput line args = Inr args' \<and> vector args' = Some (tokens line)
                \<and> length args' = length args"
proof -
  from processInput_total [OF assms] obtain args' where a: "processInput line args = Inr args'"
    by blast
  with processInput_ok [OF a] show ?thesis by blast
qed

theorem processInput_within_capacity_witness:
  "\<exists>args'. processInput (''echo   hi'' @ [CHR 0x09] @ ''there'' @ [CHR 0x0A]) fresh_array = Inr args'
           \<and> vector args' = Some [''echo'', ''hi'', ''there'']
           \<and> length args' = length fresh_array"
proof -
  have "length (tokens (''echo   hi'' @ [CHR 0x09] @ ''there'' @ [CHR 0x0A])) < length fresh_array"
    by (simp only: tokens_example) (simp add: fresh_array_def MAX_NUM_CMDS_def)
  from processInput_within_capacity [OF this] show ?thesis
    by (simp only: tokens_example)
qed

lemma strtok_blank: "list_all is_delim line \<Longrightarrow> strtok line = None"
  by (simp add: strtok_def dropWhile_eq_Nil_conv list_all_iff)

lemma tokens_blank: "list_all is_delim line \<Longrightarrow> tokens line = []"
  by (subst tokens.simps) (simp add: strtok_blank)

text \<open>
  A line of spaces, tabs and newlines only has no token, and reading it in the
  interactive loop writes the prompt and does nothing else.
\<close>

theorem blank_line_is_ignored:
  assumes "list_all is_delim line" and "0 < length args"
  shows "tokens line = []
       \<and> interactive plat [Some line] args s = Inr (emit [Stdout ''myshell> ''] s)"
proof -
  have t: "tokens line = []" by (rule tokens_blank [OF assms(1)])
  have "length (tokens line) < length args" using assms(2) by (simp add: t)
  from processInput_total [OF this] obtain args' where a: "processInput line args = Inr args'"
    by blast
  from processInput_ok [OF a] have v: "vector args' = Some []" by (simp add: t)
  have "processCommand plat [] (emit [Stdout ''myshell> ''] s) = Inr (emit [Stdout ''myshell> ''] s)"
    by (simp add: processCommand_def getCommandType_def)
  then show ?thesis
    using a v t by (simp add: emit_def)
qed

theorem blank_line_is_ignored_witness:
  "tokens ([CHR '' '', CHR 0x09, CHR '' '', CHR 0x0A]) = []
   \<and> interactive always_ok [Some [CHR '' '', CHR 0x09, CHR '' '', CHR 0x0A]] fresh_array shell0
       = Inr (emit [Stdout ''myshell> ''] shell0)"
proof -
  have "list_all is_delim [CHR '' '', CHR 0x09, CHR '' '', CHR 0x0A]"
    by (simp add: is_delim_def)
  moreover have "0 < length fresh_array"
    by (simp add: fresh_array_def MAX_NUM_CMDS_def)
  ultimately show ?thesis by (rule blank_line_is_ignored)
qed

text \<open>
  The line \<open>quit\<close> ends the shell with status 0 and the line \<open>author\<close> writes the
  author's name and address to standard output and leaves the shell running; the
  table of built-ins is searched twice, by the classifier and by the dispatcher, and
  no process is created for either.
\<close>

theorem builtins_run_in_the_shell:
  "processCommand plat [''quit''] s
     = Inr (s\<lparr>events := events s @ [Lookup ''quit'', Lookup ''quit''], status := Exited 0\<rparr>)
   \<and> processCommand plat [''author''] s
       = Inr (s\<lparr>events := events s @ [Lookup ''author'', Lookup ''author'',
                  Stdout ([CHR 0x0A] @ ''giannis-mel'' @ [CHR 0x0A] @
                          ''meleziadisgiannis@gmail.com'' @ [CHR 0x0A, CHR 0x0A])]\<rparr>)"
proof -
  have q: "fst (getCommandType [''quit''] s) = 4" and a: "fst (getCommandType [''author''] s) = 4"
    by (simp_all add: getCommandType_4)
  show ?thesis
    by (simp add: processCommand_unfold q a executeBuiltinCommand_eq quitShell_def
        displayAuthor_def emit_def looked_def)
qed

lemma strtok_token:
  assumes "strtok text = Some (t, rest)"
  shows "t \<noteq> [] \<and> list_all (\<lambda>c. \<not> is_delim c) t"
proof -
  let ?u = "dropWhile is_delim text"
  from assms have ne: "?u \<noteq> []" and t: "t = takeWhile (\<lambda>c. \<not> is_delim c) ?u"
    by (auto simp: strtok_def split: if_splits)
  from ne obtain c cs where u: "?u = c # cs" by (cases ?u) auto
  have "\<not> is_delim c" using hd_dropWhile [OF ne] by (simp add: u)
  then have "t \<noteq> []" by (simp add: t u)
  moreover have "list_all (\<lambda>c. \<not> is_delim c) t"
    unfolding t list_all_iff using set_takeWhileD by fastforce
  ultimately show ?thesis by simp
qed

text \<open>
  Every token of a line is a non-empty run of characters none of which is a space, a
  tab or a newline.
\<close>

theorem tokens_are_words:
  "list_all (\<lambda>t. t \<noteq> [] \<and> list_all (\<lambda>c. \<not> is_delim c) t) (tokens line)"
proof (induction line rule: tokens.induct)
  case (1 ln)
  show ?case
  proof (cases "strtok ln")
    case None
    then show ?thesis by (subst tokens.simps) simp
  next
    case (Some p)
    obtain t rest where p: "p = (t, rest)" by (cases p)
    from "1.IH" [OF Some [unfolded p] refl] strtok_token [OF Some [unfolded p]]
    show ?thesis
      by (subst tokens.simps) (simp add: Some p)
  qed
qed

end
